theory Spec2Isabelle
  imports Complex_Main
begin

section \<open>Python values shared by the services\<close>

text \<open>
  A Python \<open>str\<close> is a sequence of Unicode code points. The cleaning expression of
  \<open>TextService.clean_text\<close> names ranges up to U+1EFF, so a character is modelled by
  its code point (a natural number) and a string by the list of its code points.
\<close>

type_synonym pystr = "nat list"

text \<open>The exceptions the modelled functions raise.\<close>

datatype error = ValueError

text \<open>
  Slicing \<open>xs[i:j]\<close>: a negative index counts from the end, and both indices are
  clamped to the sequence.
\<close>

definition slice_index :: "nat \<Rightarrow> int \<Rightarrow> nat" where
  "slice_index n i = (if i < 0 then nat (max 0 (i + int n)) else min (nat i) n)"

definition py_slice :: "'a list \<Rightarrow> int \<Rightarrow> int \<Rightarrow> 'a list" where
  "py_slice xs i j =
     (let a = slice_index (length xs) i; b = slice_index (length xs) j
      in take (b - a) (drop a xs))"

section \<open>TextService.chunk_text (app/services/text_service.py)\<close>

text \<open>The instance attributes set by \<open>TextService.__init__\<close>.\<close>

definition self_chunk_size :: int where
  "self_chunk_size = 800"

definition self_overlap :: int where
  "self_overlap = 100"

text \<open>
  \<open>chunk_size = chunk_size or self.chunk_size\<close>: the parameter defaults to \<open>None\<close>,
  and \<open>or\<close> takes the right operand whenever the left one is falsy, which for an
  integer means \<open>None\<close> or \<open>0\<close>.
\<close>

definition py_or :: "int option \<Rightarrow> int \<Rightarrow> int" where
  "py_or v d = (case v of None \<Rightarrow> d | Some n \<Rightarrow> if n = 0 then d else n)"

text \<open>
  The \<open>while start < text_length\<close> loop, with the list \<open>chunks\<close> it appends to.
  Nothing in the loop itself makes \<open>start\<close> grow, so it is a partial function:
  \<open>None\<close> is a loop that never returns.
\<close>

partial_function (option) chunk_loop ::
  "'a list \<Rightarrow> int \<Rightarrow> int \<Rightarrow> int \<Rightarrow> 'a list list \<Rightarrow> 'a list list option" where
  [code]: "chunk_loop text chunk_size overlap start chunks =
     (if start < int (length text) then
        (let end = min (start + chunk_size) (int (length text));
             chunks' = chunks @ [py_slice text start end]
         in if end \<ge> int (length text) then Some chunks'
            else chunk_loop text chunk_size overlap (end - overlap) chunks')
      else Some chunks)"

text \<open>
  \<open>chunk_text(self, text, chunk_size=None, overlap=None)\<close>. The result is \<open>None\<close>
  when the call does not return, \<open>Some (Inl e)\<close> when it raises \<open>e\<close> and
  \<open>Some (Inr chunks)\<close> when it returns \<open>chunks\<close>.
\<close>

definition chunk_text ::
  "'a list \<Rightarrow> int option \<Rightarrow> int option \<Rightarrow> (error + 'a list list) option" where
  "chunk_text text chunk_size overlap =
     (if text = [] then Some (Inr [])
      else
        (let chunk_size = py_or chunk_size self_chunk_size;
             overlap = py_or overlap self_overlap
         in if chunk_size \<le> overlap then Some (Inl ValueError)
            else map_option Inr (chunk_loop text chunk_size overlap 0 [])))"

text \<open>
  The sliding-window reference, written from the specification: windows of \<open>sz\<close>
  characters, each starting \<open>sz - ov\<close> characters after the one before; the window
  that reaches the end of the text is the last one and may be shorter; the empty text
  has no window and a text of at most \<open>sz\<close> characters is its own single window.
  (With \<open>sz \<le> ov\<close> the windows would not advance: the reference stops there.)
\<close>

function sliding_windows :: "'a list \<Rightarrow> nat \<Rightarrow> nat \<Rightarrow> 'a list list" where
  "sliding_windows t sz ov =
     (if t = [] then []
      else if length t \<le> sz \<or> sz \<le> ov then [t]
      else take sz t # sliding_windows (drop (sz - ov) t) sz ov)"
  by pat_completeness auto
termination
  by (relation "measure (\<lambda>(t, sz, ov). length t)") auto

declare sliding_windows.simps [simp del]

text \<open>
  The concatenation of the chunks with the overlap removed: the first chunk, then
  every later chunk without its first \<open>ov\<close> characters.
\<close>

definition reassemble :: "nat \<Rightarrow> 'a list list \<Rightarrow> 'a list" where
  "reassemble ov chunks =
     (case chunks of [] \<Rightarrow> [] | c # cs \<Rightarrow> c @ concat (map (drop ov) cs))"

section \<open>TextService.clean_text (app/services/text_service.py)\<close>

text \<open>
  String literals of this theory are ASCII; \<open>cp\<close> gives their code points, so that
  examples stay readable.
\<close>

definition cp :: "string \<Rightarrow> pystr" where
  "cp s = map of_char s"

text \<open>
  The characters the first substitution leaves alone, that is the complement of the
  class \<^verbatim>\<open>[^\x20-\x7E\u00A0-\u024F\u1E00-\u1EFF\n\r\t]\<close>.
\<close>

definition is_kept :: "nat \<Rightarrow> bool" where
  "is_kept c \<longleftrightarrow>
     (32 \<le> c \<and> c \<le> 126) \<or> (160 \<le> c \<and> c \<le> 591) \<or> (7680 \<le> c \<and> c \<le> 7935)
     \<or> c = 10 \<or> c = 13 \<or> c = 9"

text \<open>
  Whitespace as \<open>str.strip()\<close> and the class \<^verbatim>\<open>\s\<close> of a \<open>str\<close> pattern see it:
  tab to carriage return, the separators U+001C to U+001F, space, U+0085, U+00A0,
  U+1680, U+2000 to U+200A, U+2028, U+2029, U+202F, U+205F and U+3000.
\<close>

definition is_space :: "nat \<Rightarrow> bool" where
  "is_space c \<longleftrightarrow>
     (9 \<le> c \<and> c \<le> 13) \<or> (28 \<le> c \<and> c \<le> 32) \<or> c = 133 \<or> c = 160 \<or> c = 5760
     \<or> (8192 \<le> c \<and> c \<le> 8202) \<or> c = 8232 \<or> c = 8233 \<or> c = 8239 \<or> c = 8287
     \<or> c = 12288"

text \<open>The class \<^verbatim>\<open>[ \t]\<close>.\<close>

definition is_blank :: "nat \<Rightarrow> bool" where
  "is_blank c \<longleftrightarrow> c = 32 \<or> c = 9"

text \<open>
  \<^verbatim>\<open>re.sub(r'[^\x20-\x7E\u00A0-\u024F\u1E00-\u1EFF\n\r\t]', ' ', text)\<close>: every
  character outside the class is replaced by a space.
\<close>

definition sub_unprintable :: "pystr \<Rightarrow> pystr" where
  "sub_unprintable text = map (\<lambda>c. if is_kept c then c else 32) text"

text \<open>
  \<^verbatim>\<open>re.sub(r'[ \t]+', ' ', text)\<close>: each maximal run of spaces and tabs becomes one
  space.
\<close>

function collapse_blanks :: "pystr \<Rightarrow> pystr" where
  "collapse_blanks [] = []"
| "collapse_blanks (c # cs) =
     (if is_blank c then 32 # collapse_blanks (dropWhile is_blank cs)
      else c # collapse_blanks cs)"
  by pat_completeness auto
termination
  by (relation "measure length") (auto simp: length_dropWhile_le less_Suc_eq_le)

text \<open>
  \<^verbatim>\<open>re.sub(r'\n\s*\n+', '\n\n', text)\<close>. A match starts at a line feed; the greedy
  \<^verbatim>\<open>\s*\<close> takes the whole run of whitespace after it and gives back characters until
  a line feed follows, so the match ends with the last line feed of that run, and there
  is a match only if the run holds a line feed. \<open>newline_run cs\<close> is the number of
  characters of \<open>cs\<close> up to and including that last line feed; the scan goes on behind
  it.
\<close>

definition newline_run :: "pystr \<Rightarrow> nat" where
  "newline_run cs =
     (let ws = takeWhile is_space cs
      in length ws - length (takeWhile (\<lambda>c. c \<noteq> 10) (rev ws)))"

function collapse_newlines :: "pystr \<Rightarrow> pystr" where
  "collapse_newlines [] = []"
| "collapse_newlines (c # cs) =
     (if c = 10 \<and> 10 \<in> set (takeWhile is_space cs)
      then 10 # 10 # collapse_newlines (drop (newline_run cs) cs)
      else c # collapse_newlines cs)"
  by pat_completeness auto
termination
  by (relation "measure length") auto

text \<open>\<^verbatim>\<open>text.split('\n')\<close> and \<^verbatim>\<open>'\n'.join(lines)\<close>.\<close>

fun split_nl :: "pystr \<Rightarrow> pystr list" where
  "split_nl [] = [[]]"
| "split_nl (c # cs) =
     (if c = 10 then [] # split_nl cs
      else (c # hd (split_nl cs)) # tl (split_nl cs))"

fun join_nl :: "pystr list \<Rightarrow> pystr" where
  "join_nl [] = []"
| "join_nl [l] = l"
| "join_nl (l # ls) = l @ 10 # join_nl ls"

text \<open>\<open>str.strip()\<close>: the whitespace at both ends goes.\<close>

definition strip :: "pystr \<Rightarrow> pystr" where
  "strip s = rev (dropWhile is_space (rev (dropWhile is_space s)))"

text \<open>\<open>clean_text(self, text)\<close>, statement by statement.\<close>

definition clean_text :: "pystr \<Rightarrow> pystr" where
  "clean_text text =
     (if text = [] then []
      else
        (let text = sub_unprintable text;
             text = collapse_blanks text;
             text = collapse_newlines text;
             lines = split_nl text;
             lines = map strip (filter (\<lambda>line. strip line \<noteq> []) lines);
             text = join_nl lines
         in strip text))"

text \<open>
  Two notions for the proofs: the lines that the list comprehension
  \<^verbatim>\<open>[line.strip() for line in lines if line.strip()]\<close> keeps of a text, and texts in
  which no two spaces are adjacent.
\<close>

definition nonblank_lines :: "pystr \<Rightarrow> pystr list" where
  "nonblank_lines text = map strip (filter (\<lambda>line. strip line \<noteq> []) (split_nl text))"

fun single_spaced :: "pystr \<Rightarrow> bool" where
  "single_spaced [] = True"
| "single_spaced [c] = True"
| "single_spaced (c # d # cs) = (\<not> (c = 32 \<and> d = 32) \<and> single_spaced (d # cs))"

text \<open>
  The copy of \<open>clean_text\<close> in \<^verbatim>\<open>verify_text_service_standalone.py\<close>: it deletes the
  characters outside the class, collapses spaces and line feeds with the same two
  expressions, and strips the whole text; it has no step on the single lines.
\<close>

definition clean_text_standalone :: "pystr \<Rightarrow> pystr" where
  "clean_text_standalone text =
     (if text = [] then []
      else
        (let text = filter is_kept text;
             text = collapse_blanks text;
             text = collapse_newlines text
         in strip text))"

section \<open>AIService._validate_date_format (app/services/ai_service.py)\<close>

text \<open>
  The value under \<open>fecha_documento\<close> comes out of the parsed JSON answer of the language
  model: \<open>None\<close>, a string, or something else (a number, a list, ...).
\<close>

datatype json_value = JNull | JStr pystr | JOther

text \<open>
  In a \<open>str\<close> pattern \<^verbatim>\<open>\d\<close> is any Unicode decimal digit, and \<open>int()\<close> reads them all.
  The digits of ASCII are fixed here; the decimal digits beyond ASCII are those of the
  interpreter's Unicode database, the parameter \<open>nd\<close> (code point to digit value).
\<close>

definition digit_value :: "(nat \<Rightarrow> nat option) \<Rightarrow> nat \<Rightarrow> nat option" where
  "digit_value nd c =
     (if 48 \<le> c \<and> c \<le> 57 then Some (c - 48) else if c < 128 then None else nd c)"

definition is_digit :: "(nat \<Rightarrow> nat option) \<Rightarrow> nat \<Rightarrow> bool" where
  "is_digit nd c \<longleftrightarrow> digit_value nd c \<noteq> None"



definition hyphen_at :: "pystr \<Rightarrow> bool" where
  "hyphen_at s = (case s of [] \<Rightarrow> False | c # _ \<Rightarrow> c = 45)"
















section \<open>search_documentos (app/api/v1/endpoints/documentos.py)\<close>

text \<open>
  The store: the rows of \<open>documentos\<close> with the columns the search reads, and the rows of
  \<open>fragmentos\<close>. The embedding vectors stay in the store; of a fragment the search
  sees its parent and \<open>similitud\<close>, the cosine distance between its embedding and the
  query vector that the operator \<^verbatim>\<open><=>\<close> computes. Dates are day numbers.
\<close>

datatype doc_status = Processing | Completed | Failed

type_synonym date = int

record documento =
  doc_id :: nat
  status :: doc_status
  tipo_documento :: "string option"
  fecha_documento :: "date option"

record fragmento =
  documento_id :: nat
  similitud :: real

text \<open>
  The request, as \<open>SearchRequest\<close> validates it before the handler runs: \<open>page \<ge> 1\<close> and
  \<open>1 \<le> page_size \<le> 50\<close>.
\<close>

record search_filters =
  filter_tipo_documento :: "string option"
  fecha_desde :: "date option"
  fecha_hasta :: "date option"

record search_request =
  filters :: "search_filters option"
  page :: nat
  page_size :: nat

definition valid_request :: "search_request \<Rightarrow> bool" where
  "valid_request request \<longleftrightarrow> 1 \<le> page request \<and> 1 \<le> page_size request \<and> page_size request \<le> 50"

record search_result =
  documento :: documento
  relevance_score :: real

record search_response =
  results :: "search_result list"
  total :: nat
  response_page :: nat
  total_pages :: nat

datatype http_error = Internal_Server_Error

text \<open>
  The SQL statement: the pairs (parent, distance) of the fragments of completed
  documents, \<^verbatim>\<open>DISTINCT\<close> as pairs, in ascending order of distance, the first 50.
  (The order among equal distances is the store's choice; here it is the order of the
  table.)
\<close>

definition vector_search :: "fragmento list \<Rightarrow> documento list \<Rightarrow> (nat \<times> real) list" where
  "vector_search fragmentos documentos =
     take 50 (sort_key snd (remdups
       [(documento_id f, similitud f).
          f \<leftarrow> fragmentos, d \<leftarrow> documentos, documento_id f = doc_id d \<and> status d = Completed]))"

text \<open>
  The dictionary comprehension \<^verbatim>\<open>{row.documento_id: row.similitud for row in results}\<close>:
  the rows are entered in order, a later row of a key replacing the earlier one.
\<close>

definition similitud_map :: "(nat \<times> real) list \<Rightarrow> (nat \<rightharpoonup> real)" where
  "similitud_map rows = fold (\<lambda>row m. m(fst row \<mapsto> snd row)) rows Map.empty"

text \<open>\<^verbatim>\<open>similitud_map.get(doc_id, 999)\<close>.\<close>

definition get_similitud :: "(nat \<rightharpoonup> real) \<Rightarrow> nat \<Rightarrow> real" where
  "get_similitud m k = (case m k of Some s \<Rightarrow> s | None \<Rightarrow> 999)"

definition SIMILARITY_THRESHOLD :: real where
  "SIMILARITY_THRESHOLD = 1.0"

text \<open>
  The optional filters on the query of the documents. A filter on a column that is NULL
  in a row excludes the row; an empty \<open>tipo_documento\<close> is no filter.
\<close>

definition apply_filters :: "search_filters option \<Rightarrow> documento list \<Rightarrow> documento list" where
  "apply_filters fs docs =
     (case fs of
        None \<Rightarrow> docs
      | Some f \<Rightarrow>
          (let docs = (case filter_tipo_documento f of
                         None \<Rightarrow> docs
                       | Some t \<Rightarrow> if t = [] then docs
                                  else filter (\<lambda>d. tipo_documento d = Some t) docs);
               docs = (case fecha_desde f of
                         None \<Rightarrow> docs
                       | Some a \<Rightarrow> filter (\<lambda>d. case fecha_documento d of
                                                None \<Rightarrow> False | Some x \<Rightarrow> a \<le> x) docs);
               docs = (case fecha_hasta f of
                         None \<Rightarrow> docs
                       | Some b \<Rightarrow> filter (\<lambda>d. case fecha_documento d of
                                                None \<Rightarrow> False | Some x \<Rightarrow> x \<le> b) docs)
           in docs))"

definition empty_response :: "search_request \<Rightarrow> search_response" where
  "empty_response request =
     \<lparr>results = [], total = 0, response_page = page request, total_pages = 0\<rparr>"

text \<open>
  The handler after the query embedding and the SQL statement. \<open>SearchResult\<close> accepts a
  relevance score between 0 and 2 only; its validation error ends in the handler's
  \<open>except Exception\<close>, which answers 500.
\<close>

definition rank_documents ::
  "(nat \<times> real) list \<Rightarrow> documento list \<Rightarrow> search_request \<Rightarrow> http_error + search_response" where
  "rank_documents rows documentos request =
     (let documento_ids = map fst rows
      in if documento_ids = [] then Inr (empty_response request)
         else
           (let m = similitud_map rows;
                documento_ids_filtrados =
                  filter (\<lambda>doc_id. get_similitud m doc_id \<le> SIMILARITY_THRESHOLD) documento_ids
            in if documento_ids_filtrados = [] then Inr (empty_response request)
               else
                 (let query_documentos =
                        filter (\<lambda>d. doc_id d \<in> set documento_ids_filtrados \<and> status d = Completed)
                          documentos;
                      documentos' = apply_filters (filters request) query_documentos;
                      documentos_ordenados = sort_key (\<lambda>d. get_similitud m (doc_id d)) documentos';
                      total = length documentos_ordenados;
                      total_pages = (total + page_size request - 1) div page_size request;
                      start_idx = (page request - 1) * page_size request;
                      documentos_pagina = take (page_size request) (drop start_idx documentos_ordenados);
                      search_results =
                        map (\<lambda>doc. \<lparr>documento = doc, relevance_score = get_similitud m (doc_id doc)\<rparr>)
                          documentos_pagina
                  in if list_all (\<lambda>r. 0 \<le> relevance_score r \<and> relevance_score r \<le> 2) search_results
                     then Inr \<lparr>results = search_results, total = total,
                               response_page = page request, total_pages = total_pages\<rparr>
                     else Inl Internal_Server_Error)))"

definition search_documentos ::
  "fragmento list \<Rightarrow> documento list \<Rightarrow> search_request \<Rightarrow> http_error + search_response" where
  "search_documentos fragmentos documentos request =
     rank_documents (vector_search fragmentos documentos) documentos request"

text \<open>
  The least distance between the query and the fragments of a document, as the
  specification ranks documents.
\<close>

definition min_distance :: "fragmento list \<Rightarrow> nat \<Rightarrow> real option" where
  "min_distance fragmentos k =
     (case filter (\<lambda>f. documento_id f = k) fragmentos of
        [] \<Rightarrow> None
      | f # fs \<Rightarrow> Some (fold min (map similitud fs) (similitud f)))"

section \<open>process_document: the retry policy (app/workers/tasks.py)\<close>

text \<open>
  \<^verbatim>\<open>retry_delay = 60 * (5 ** self.request.retries)\<close>, the countdown handed to
  \<open>self.retry\<close> in the \<open>except\<close> branch.
\<close>

definition retry_delay :: "nat \<Rightarrow> nat" where
  "retry_delay retries = 60 * 5 ^ retries"

text \<open>\<^verbatim>\<open>@celery_app.task(bind=True, max_retries=3, default_retry_delay=60)\<close>.\<close>

definition max_retries :: nat where
  "max_retries = 3"

text \<open>
  \<open>Task.retry\<close> of the task queue library, as its documentation gives it: it gives up
  and re-raises the exception once \<open>request.retries\<close> has reached \<open>max_retries\<close>, and
  otherwise enqueues the task again with \<open>retries + 1\<close> after the countdown.
\<close>

datatype retry_outcome = Retry_After nat | Give_Up

definition task_retry :: "nat \<Rightarrow> nat \<Rightarrow> retry_outcome" where
  "task_retry retries countdown = (if retries + 1 > max_retries then Give_Up else Retry_After countdown)"

text \<open>
  The \<open>except\<close> branch of \<open>process_document\<close>: when the row of the document exists it is
  set to \<open>error\<close> with the message, never deleted; then the retry is asked for. The state
  is the row of the document, if it was created (\<open>documento_id\<close> and the row found).
\<close>

record documento_row =
  row_status :: doc_status
  error_message :: "string option"

definition on_failure ::
  "nat \<Rightarrow> string \<Rightarrow> documento_row option \<Rightarrow> documento_row option \<times> retry_outcome" where
  "on_failure retries message row =
     (map_option (\<lambda>r. r\<lparr>row_status := Failed, error_message := Some message\<rparr>) row,
      task_retry retries (retry_delay retries))"

text \<open>
  A job whose every execution fails, from the execution with \<open>request.retries = retries\<close>
  on: the countdowns of the retries it is given.
\<close>

function failing_job :: "nat \<Rightarrow> nat list" where
  "failing_job retries =
     (case task_retry retries (retry_delay retries) of
        Retry_After countdown \<Rightarrow> countdown # failing_job (retries + 1)
      | Give_Up \<Rightarrow> [])"
  by pat_completeness auto
termination
  by (relation "measure (\<lambda>retries. Suc max_retries - retries)")
    (auto simp: task_retry_def split: if_splits)

text \<open>Rows for the examples: a completed document without metadata, and a fragment.\<close>

definition completed_doc :: "nat \<Rightarrow> documento" where
  "completed_doc k = \<lparr>doc_id = k, status = Completed, tipo_documento = None, fecha_documento = None\<rparr>"

definition frag :: "nat \<Rightarrow> real \<Rightarrow> fragmento" where
  "frag k s = \<lparr>documento_id = k, similitud = s\<rparr>"

definition first_page :: search_request where
  "first_page = \<lparr>filters = None, page = 1, page_size = 10\<rparr>"

section \<open>The chunker's parameters\<close>

lemma py_or_zero: "py_or (Some 0) d = d"
  by (simp add: py_or_def)

lemma py_or_None: "py_or None d = d"
  by (simp add: py_or_def)

lemma py_or_nonzero: "n \<noteq> 0 \<Longrightarrow> py_or (Some n) d = n"
  by (simp add: py_or_def)

text \<open>
  C10. Passing 0 for \<open>chunk_size\<close> or for \<open>overlap\<close> is the same as passing the
  instance default (800, 100), and the same as not passing the parameter: for every
  text, \<open>chunk_text(text, 800, 0)\<close> is \<open>chunk_text(text, 800, 100)\<close>, so a zero
  overlap cannot be asked for.
\<close>

theorem chunk_text_zero_is_default:
  "chunk_text text (Some 800) (Some 0) = chunk_text text (Some 800) (Some 100)
   \<and> chunk_text text sz (Some 0) = chunk_text text sz (Some 100)
   \<and> chunk_text text sz (Some 0) = chunk_text text sz None
   \<and> chunk_text text (Some 0) ov = chunk_text text (Some 800) ov
   \<and> chunk_text text (Some 0) ov = chunk_text text None ov"
  by (simp add: chunk_text_def py_or_def self_chunk_size_def self_overlap_def)

theorem chunk_text_zero_is_default_witness:
  "chunk_text ''abc'' (Some 2) (Some 0) = Some (Inl ValueError)
   \<and> chunk_text ''abc'' (Some 0) (Some 1) = chunk_text ''abc'' (Some 800) (Some 1)"
  using chunk_text_zero_is_default [of "''abc''" "Some 2" "Some 1"]
  by (simp add: chunk_text_def py_or_def self_chunk_size_def self_overlap_def)

section \<open>The chunker against the sliding-window reference\<close>

lemma py_slice_nonneg:
  "0 \<le> i \<Longrightarrow> 0 \<le> j \<Longrightarrow> py_slice xs i j = take (nat j - nat i) (drop (nat i) xs)"
  by (auto simp: py_slice_def slice_index_def Let_def min_def)

lemma chunk_loop_windows:
  "ov < sz \<Longrightarrow> 0 \<le> start \<Longrightarrow> u = drop (nat start) t \<Longrightarrow>
   chunk_loop t (int sz) (int ov) start acc = Some (acc @ sliding_windows u sz ov)"
proof (induction u sz ov arbitrary: start acc rule: sliding_windows.induct)
  case (1 u sz ov)
  show ?case
  proof (cases "u = []")
    case True
    with 1(3,4) have "\<not> start < int (length t)" by auto
    with True show ?thesis
      by (subst chunk_loop.simps) (simp add: sliding_windows.simps)
  next
    case False
    with 1(3,4) have lt: "start < int (length t)" by auto
    have len: "length u = length t - nat start" using 1(4) by simp
    show ?thesis
    proof (cases "length u \<le> sz")
      case True
      with lt len 1(3) have e: "min (start + int sz) (int (length t)) = int (length t)" by auto
      have "py_slice t start (int (length t)) = u"
        using 1(3,4) lt by (simp add: py_slice_nonneg)
      with False True lt e show ?thesis
        by (subst chunk_loop.simps) (simp add: sliding_windows.simps [of u])
    next
      case long: False
      with lt len 1(3) have e: "min (start + int sz) (int (length t)) = start + int sz" by auto
      have nend: "\<not> int (length t) \<le> start + int sz" using long len 1(3) lt by auto
      have sl: "py_slice t start (start + int sz) = take sz u"
        using 1(3,4) by (simp add: py_slice_nonneg nat_add_distrib)
      have nxt: "drop (sz - ov) u = drop (nat (start + int sz - int ov)) t"
        using 1(2,3,4) by (simp add: nat_add_distrib nat_diff_distrib' add.commute)
      have "chunk_loop t (int sz) (int ov) (start + int sz - int ov) (acc @ [take sz u])
            = Some ((acc @ [take sz u]) @ sliding_windows (drop (sz - ov) u) sz ov)"
        using 1(2,3) False long nxt by (intro 1(1)) auto
      with False long lt e nend sl 1(2) show ?thesis
        by (subst chunk_loop.simps) (simp add: sliding_windows.simps [of u])
    qed
  qed
qed

lemma sliding_windows_hd:
  "t \<noteq> [] \<Longrightarrow> ov < sz \<Longrightarrow> \<exists>cs. sliding_windows t sz ov = take sz t # cs"
  by (subst sliding_windows.simps) auto

lemma reassemble_sliding_windows:
  "0 < ov \<Longrightarrow> ov < sz \<Longrightarrow> reassemble ov (sliding_windows t sz ov) = t"
proof (induction t sz ov rule: sliding_windows.induct)
  case (1 t sz ov)
  show ?case
  proof (cases "t = [] \<or> length t \<le> sz")
    case True
    then show ?thesis by (auto simp: sliding_windows.simps [of t] reassemble_def)
  next
    case False
    then have ne: "drop (sz - ov) t \<noteq> []" using 1(3) by auto
    then obtain cs where cs: "sliding_windows (drop (sz - ov) t) sz ov = take sz (drop (sz - ov) t) # cs"
      using sliding_windows_hd 1(3) by blast
    have ih: "reassemble ov (sliding_windows (drop (sz - ov) t) sz ov) = drop (sz - ov) t"
      using False 1 by auto
    then have a: "take sz (drop (sz - ov) t) @ concat (map (drop ov) cs) = drop (sz - ov) t"
      using cs by (simp add: reassemble_def)
    define c where "c = take sz (drop (sz - ov) t)"
    have "ov \<le> length c" using False 1(3) by (auto simp: c_def)
    then have "drop ov c @ concat (map (drop ov) cs) = drop ov (c @ concat (map (drop ov) cs))"
      by simp
    also have "\<dots> = drop sz t" using a 1(3) by (simp add: c_def)
    finally have "take sz t @ drop ov c @ concat (map (drop ov) cs) = t" by simp
    then show ?thesis using False 1(3) cs
      by (simp add: sliding_windows.simps [of t] reassemble_def c_def)
  qed
qed

lemma sliding_windows_overlap:
  "ov < sz \<Longrightarrow> Suc i < length (sliding_windows t sz ov) \<Longrightarrow>
   drop (length (sliding_windows t sz ov ! i) - ov) (sliding_windows t sz ov ! i)
     = take ov (sliding_windows t sz ov ! Suc i)
   \<and> ov < length (sliding_windows t sz ov ! Suc i)"
proof (induction t sz ov arbitrary: i rule: sliding_windows.induct)
  case (1 t sz ov)
  show ?case
  proof (cases "t = [] \<or> length t \<le> sz")
    case True
    with 1(3) show ?thesis by (auto simp: sliding_windows.simps [of t])
  next
    case False
    then have ne: "drop (sz - ov) t \<noteq> []" using 1(2) by auto
    then obtain cs where cs: "sliding_windows (drop (sz - ov) t) sz ov = take sz (drop (sz - ov) t) # cs"
      using sliding_windows_hd 1(2) by blast
    have unf: "sliding_windows t sz ov = take sz t # sliding_windows (drop (sz - ov) t) sz ov"
      using False 1(2) by (simp add: sliding_windows.simps [of t])
    show ?thesis
    proof (cases i)
      case 0
      have "drop (sz - ov) (take sz t) = take ov (drop (sz - ov) t)"
        using 1(2) by (simp add: drop_take)
      then show ?thesis using 0 unf cs False 1(2) by (auto simp: min_def)
    next
      case (Suc j)
      with 1(3) unf have "Suc j < length (sliding_windows (drop (sz - ov) t) sz ov)" by simp
      then show ?thesis using 1(1) [of j] False 1(2) Suc unf by auto
    qed
  qed
qed

lemma sliding_windows_nth:
  "ov < sz \<Longrightarrow> i < length (sliding_windows t sz ov) \<Longrightarrow>
   sliding_windows t sz ov ! i = take sz (drop (i * (sz - ov)) t)"
proof (induction t sz ov arbitrary: i rule: sliding_windows.induct)
  case (1 t sz ov)
  show ?case
  proof (cases "t = [] \<or> length t \<le> sz")
    case True
    with 1(3) show ?thesis by (auto simp: sliding_windows.simps [of t])
  next
    case False
    have unf: "sliding_windows t sz ov = take sz t # sliding_windows (drop (sz - ov) t) sz ov"
      using False 1(2) by (simp add: sliding_windows.simps [of t])
    show ?thesis
    proof (cases i)
      case 0
      then show ?thesis using unf by simp
    next
      case (Suc j)
      with 1(3) unf have "j < length (sliding_windows (drop (sz - ov) t) sz ov)" by simp
      then show ?thesis using 1(1) [of j] False 1(2) Suc unf by (simp add: add.commute)
    qed
  qed
qed

lemma chunk_text_windows:
  assumes "0 < ov" "ov < sz"
  shows "chunk_text t (Some (int sz)) (Some (int ov)) = Some (Inr (sliding_windows t sz ov))"
proof (cases "t = []")
  case True
  then show ?thesis by (simp add: chunk_text_def sliding_windows.simps [of "[]"])
next
  case False
  have "chunk_loop t (int sz) (int ov) 0 [] = Some ([] @ sliding_windows (drop (nat 0) t) sz ov)"
    using assms by (intro chunk_loop_windows) auto
  with False assms show ?thesis by (simp add: chunk_text_def py_or_def)
qed

text \<open>
  For every text and every \<open>size > overlap \<ge> 1\<close>, \<open>chunk_text\<close> returns exactly the
  sliding windows of the reference: window \<open>i\<close> is the \<open>size\<close> characters from position
  \<open>i * (size - overlap)\<close>, cut at the end of the text. Hence the chunks with each
  overlap removed concatenate to the text, and the last \<open>overlap\<close> characters of a chunk
  are the first \<open>overlap\<close> characters of the next one, which is always longer than
  \<open>overlap\<close>.
\<close>

lemma chunk_text_sliding_windows:
  "0 < ov \<Longrightarrow> ov < sz \<Longrightarrow>
   chunk_text t (Some (int sz)) (Some (int ov)) = Some (Inr (sliding_windows t sz ov))
   \<and> reassemble ov (sliding_windows t sz ov) = t
   \<and> (\<forall>i. i < length (sliding_windows t sz ov) \<longrightarrow>
          sliding_windows t sz ov ! i = take sz (drop (i * (sz - ov)) t))
   \<and> (\<forall>i. Suc i < length (sliding_windows t sz ov) \<longrightarrow>
          drop (length (sliding_windows t sz ov ! i) - ov) (sliding_windows t sz ov ! i)
            = take ov (sliding_windows t sz ov ! Suc i)
          \<and> ov < length (sliding_windows t sz ov ! Suc i))"
proof (intro conjI allI impI)
  assume "0 < ov" "ov < sz"
  then show "chunk_text t (Some (int sz)) (Some (int ov)) = Some (Inr (sliding_windows t sz ov))"
    by (rule chunk_text_windows)
next
  assume "0 < ov" "ov < sz"
  then show "reassemble ov (sliding_windows t sz ov) = t"
    by (rule reassemble_sliding_windows)
next
  fix i
  assume "ov < sz" "i < length (sliding_windows t sz ov)"
  then show "sliding_windows t sz ov ! i = take sz (drop (i * (sz - ov)) t)"
    by (rule sliding_windows_nth)
next
  fix i
  assume "ov < sz" "Suc i < length (sliding_windows t sz ov)"
  then show "drop (length (sliding_windows t sz ov ! i) - ov) (sliding_windows t sz ov ! i)
            = take ov (sliding_windows t sz ov ! Suc i)"
    using sliding_windows_overlap by blast
next
  fix i
  assume "ov < sz" "Suc i < length (sliding_windows t sz ov)"
  then show "ov < length (sliding_windows t sz ov ! Suc i)"
    using sliding_windows_overlap by blast
qed

text \<open>
  C3. With an overlap of 0 the chunker does not return the sliding windows: the 0 is
  taken for a parameter that was not given and replaced by the default 100, so for the
  text \<^verbatim>\<open>"abcd"\<close>, size 2 and overlap 0, where the windows are \<^verbatim>\<open>"ab"\<close> and \<^verbatim>\<open>"cd"\<close>, the
  call raises \<open>ValueError\<close>; with size 3, the text \<^verbatim>\<open>"abcdefg"\<close> and overlap 1 it returns
  the windows.
\<close>

theorem chunk_text_zero_overlap:
  "chunk_text ''abcd'' (Some 2) (Some 0) = Some (Inl ValueError)
   \<and> sliding_windows ''abcd'' 2 0 = [''ab'', ''cd'']
   \<and> chunk_text ''abcd'' (Some 2) (Some 0) \<noteq> Some (Inr (sliding_windows ''abcd'' 2 0))
   \<and> chunk_text ''abcdefg'' (Some 3) (Some 1) = Some (Inr (sliding_windows ''abcdefg'' 3 1))
   \<and> sliding_windows ''abcdefg'' 3 1 = [''abc'', ''cde'', ''efg'']"
  by code_simp

section \<open>The chunker's precondition\<close>

text \<open>
  C6 (amended). For every non-empty text and all non-zero parameters with
  \<open>size \<le> overlap\<close>, \<open>chunk_text\<close> raises \<open>ValueError\<close>; for the empty text it returns
  the empty list whatever the parameters are.
\<close>

theorem chunk_text_invalid_configuration:
  "(text \<noteq> [] \<longrightarrow> sz \<noteq> 0 \<longrightarrow> ov \<noteq> 0 \<longrightarrow> sz \<le> ov \<longrightarrow>
      chunk_text text (Some sz) (Some ov) = Some (Inl ValueError))
   \<and> chunk_text [] sz' ov' = Some (Inr [])"
  by (simp add: chunk_text_def py_or_def)

theorem chunk_text_invalid_configuration_witness:
  "''abc'' \<noteq> [] \<and> (5::int) \<noteq> 0 \<and> (10::int) \<noteq> 0 \<and> (5::int) \<le> 10
   \<and> chunk_text ''abc'' (Some 5) (Some 10) = Some (Inl ValueError)"
  using chunk_text_invalid_configuration [of "''abc''" 5 10, THEN conjunct1] by simp

text \<open>
  C6 as stated fails for the empty text, which returns before the parameters are
  looked at.
\<close>

theorem chunk_text_invalid_configuration_counterexample:
  "chunk_text ('''' :: string) (Some 5) (Some 10) = Some (Inr [])
   \<and> chunk_text ('''' :: string) (Some 5) (Some 10) \<noteq> Some (Inl ValueError)"
  by (simp add: chunk_text_def)

section \<open>The text cleaner\<close>

lemma clean_text_lines:
  "clean_text text =
     strip (join_nl (nonblank_lines (collapse_newlines (collapse_blanks (sub_unprintable text)))))"
  by (simp add: clean_text_def nonblank_lines_def sub_unprintable_def strip_def)

subsection \<open>strip\<close>

lemma strip_Nil [simp]: "strip [] = []"
  by (simp add: strip_def)

lemma set_strip: "set (strip s) \<subseteq> set s"
  by (auto simp: strip_def dest!: set_dropWhileD)

lemma strip_all_space: "\<forall>c\<in>set s. is_space c \<Longrightarrow> strip s = []"
  by (auto simp: strip_def dest: set_dropWhileD)

lemma strip_decomp: "\<exists>a b. s = a @ strip s @ b"
proof -
  define m where "m = dropWhile is_space s"
  have "rev m = takeWhile is_space (rev m) @ dropWhile is_space (rev m)" by simp
  then have "m = rev (dropWhile is_space (rev m)) @ rev (takeWhile is_space (rev m))"
    by (metis rev_append rev_rev_ident)
  then have "m = strip s @ rev (takeWhile is_space (rev m))"
    by (simp add: strip_def m_def)
  moreover have "s = takeWhile is_space s @ m" by (simp add: m_def)
  ultimately show ?thesis by metis
qed

lemma strip_prefix_of_dropWhile: "\<exists>b. dropWhile is_space s = strip s @ b"
proof -
  define m where "m = dropWhile is_space s"
  have "rev m = takeWhile is_space (rev m) @ dropWhile is_space (rev m)" by simp
  then have "m = rev (dropWhile is_space (rev m)) @ rev (takeWhile is_space (rev m))"
    by (metis rev_append rev_rev_ident)
  then show ?thesis by (auto simp: strip_def m_def)
qed

lemma strip_hd: "strip s \<noteq> [] \<Longrightarrow> \<not> is_space (hd (strip s))"
proof -
  assume ne: "strip s \<noteq> []"
  obtain b where b: "dropWhile is_space s = strip s @ b"
    using strip_prefix_of_dropWhile by blast
  with ne have "hd (strip s) = hd (dropWhile is_space s)" by simp
  moreover have "dropWhile is_space s \<noteq> []" using b ne by simp
  ultimately show ?thesis using hd_dropWhile by metis
qed

lemma strip_last: "strip s \<noteq> [] \<Longrightarrow> \<not> is_space (last (strip s))"
proof -
  assume ne: "strip s \<noteq> []"
  then have "dropWhile is_space (rev (dropWhile is_space s)) \<noteq> []" by (simp add: strip_def)
  then have "\<not> is_space (hd (dropWhile is_space (rev (dropWhile is_space s))))"
    by (rule hd_dropWhile)
  then show ?thesis using ne by (simp add: strip_def last_rev)
qed

lemma strip_id: "s \<noteq> [] \<Longrightarrow> \<not> is_space (hd s) \<Longrightarrow> \<not> is_space (last s) \<Longrightarrow> strip s = s"
proof -
  assume a: "s \<noteq> []" "\<not> is_space (hd s)" "\<not> is_space (last s)"
  then have 1: "dropWhile is_space s = s" by (cases s) auto
  from a have "rev s \<noteq> []" "\<not> is_space (hd (rev s))" by (simp_all add: hd_rev)
  then have "dropWhile is_space (rev s) = rev s" by (cases "rev s") auto
  with 1 show ?thesis by (simp add: strip_def)
qed

lemma strip_strip: "strip (strip s) = strip s"
proof (cases "strip s = []")
  case True
  then show ?thesis by simp
next
  case False
  then show ?thesis by (intro strip_id strip_hd strip_last)
qed

subsection \<open>split and join\<close>

lemma split_nl_ne [simp]: "split_nl u \<noteq> []"
  by (induction u) auto

lemma split_nl_append: "split_nl (a @ 10 # r) = split_nl a @ split_nl r"
  by (induction a) auto

lemma split_nl_no_nl: "10 \<notin> set a \<Longrightarrow> split_nl a = [a]"
  by (induction a) auto

lemma join_nl_Cons: "ls \<noteq> [] \<Longrightarrow> join_nl (l # ls) = l @ 10 # join_nl ls"
  by (cases ls) auto

lemma join_split_nl: "join_nl (split_nl u) = u"
proof (induction u)
  case Nil
  show ?case by simp
next
  case (Cons c cs)
  show ?case
  proof (cases "c = 10")
    case True
    with Cons show ?thesis by (simp add: join_nl_Cons)
  next
    case False
    obtain l ls where S: "split_nl cs = l # ls" by (cases "split_nl cs") auto
    with Cons False show ?thesis by (cases ls) auto
  qed
qed

lemma split_join_nl:
  "ls \<noteq> [] \<Longrightarrow> \<forall>l\<in>set ls. 10 \<notin> set l \<Longrightarrow> split_nl (join_nl ls) = ls"
proof (induction ls rule: join_nl.induct)
  case 1
  then show ?case by simp
next
  case (2 l)
  then show ?case by (simp add: split_nl_no_nl)
next
  case (3 l v va)
  then show ?case by (simp add: split_nl_append split_nl_no_nl)
qed

lemma set_join_nl: "l \<in> set ls \<Longrightarrow> set l \<subseteq> set (join_nl ls)"
  by (induction ls rule: join_nl.induct) auto

lemma set_join_nl_sub: "set (join_nl ls) \<subseteq> (\<Union>l\<in>set ls. set l) \<union> {10}"
  by (induction ls rule: join_nl.induct) auto

lemma split_nl_line_set: "l \<in> set (split_nl u) \<Longrightarrow> set l \<subseteq> set u"
  using set_join_nl [of l "split_nl u"] by (simp add: join_split_nl)

lemma split_nl_line_no_nl: "l \<in> set (split_nl u) \<Longrightarrow> 10 \<notin> set l"
proof (induction u arbitrary: l)
  case Nil
  then show ?case by simp
next
  case (Cons c cs)
  obtain m ms where S: "split_nl cs = m # ms" by (cases "split_nl cs") auto
  with Cons show ?case by (auto split: if_splits)
qed

lemma join_nl_starts: "ls \<noteq> [] \<Longrightarrow> \<exists>q. join_nl ls = hd ls @ q"
  by (induction ls rule: join_nl.induct) auto

lemma join_nl_ends: "ls \<noteq> [] \<Longrightarrow> \<exists>p. join_nl ls = p @ last ls"
proof (induction ls rule: join_nl.induct)
  case 1
  then show ?case by simp
next
  case (2 l)
  then show ?case by simp
next
  case (3 l v va)
  then obtain p where "join_nl (v # va) = p @ last (v # va)" by auto
  then have "join_nl (l # v # va) = (l @ 10 # p) @ last (l # v # va)" by simp
  then show ?case by blast
qed

lemma hd_join_nl: "ls \<noteq> [] \<Longrightarrow> hd ls \<noteq> [] \<Longrightarrow> hd (join_nl ls) = hd (hd ls)"
  using join_nl_starts [of ls] by auto

lemma last_join_nl: "ls \<noteq> [] \<Longrightarrow> last ls \<noteq> [] \<Longrightarrow> last (join_nl ls) = last (last ls)"
  using join_nl_ends [of ls] by auto

lemma join_nl_eq_Nil: "ls \<noteq> [] \<Longrightarrow> hd ls \<noteq> [] \<Longrightarrow> join_nl ls \<noteq> []"
  using join_nl_starts [of ls] by auto

subsection \<open>single spacing\<close>

lemma single_spaced_Cons: "c \<noteq> 32 \<Longrightarrow> single_spaced (c # cs) = single_spaced cs"
  by (cases cs) auto

lemma single_spaced_tl: "single_spaced (c # cs) \<Longrightarrow> single_spaced cs"
  by (cases cs) auto

lemma single_spaced_sep:
  "c \<noteq> 32 \<Longrightarrow> single_spaced (a @ c # b) = (single_spaced a \<and> single_spaced b)"
proof (induction a rule: single_spaced.induct)
  case 1
  then show ?case by (simp add: single_spaced_Cons)
next
  case (2 d)
  then show ?case by (simp add: single_spaced_Cons)
next
  case (3 d e cs)
  then show ?case by simp
qed

lemma single_spaced_appendD:
  "single_spaced (a @ b) \<Longrightarrow> single_spaced a \<and> single_spaced b"
proof (induction a rule: single_spaced.induct)
  case 1
  then show ?case by simp
next
  case (2 d)
  then show ?case using single_spaced_tl by auto
next
  case (3 d e cs)
  then show ?case by simp
qed

lemma single_spaced_join:
  "single_spaced (join_nl ls) = (\<forall>l\<in>set ls. single_spaced l)"
  by (induction ls rule: join_nl.induct) (auto simp: single_spaced_sep)

lemma single_spaced_strip: "single_spaced s \<Longrightarrow> single_spaced (strip s)"
proof -
  assume a: "single_spaced s"
  obtain p q where "s = p @ strip s @ q" using strip_decomp by blast
  with a have "single_spaced (p @ strip s @ q)" by simp
  then show ?thesis using single_spaced_appendD by blast
qed

subsection \<open>collapse_blanks\<close>

lemma collapse_blanks_no_tab: "9 \<notin> set (collapse_blanks u)"
  by (induction u rule: collapse_blanks.induct) (auto simp: is_blank_def)

lemma collapse_blanks_set: "set (collapse_blanks u) \<subseteq> set u \<union> {32}"
proof (induction u rule: collapse_blanks.induct)
  case 1
  show ?case by simp
next
  case (2 c cs)
  have "set (dropWhile is_blank cs) \<subseteq> set cs" using set_dropWhileD by fastforce
  with 2 show ?case by auto
qed

lemma collapse_blanks_single_spaced: "single_spaced (collapse_blanks u)"
proof (induction u rule: collapse_blanks.induct)
  case 1
  show ?case by simp
next
  case (2 c cs)
  show ?case
  proof (cases "is_blank c")
    case True
    show ?thesis
    proof (cases "dropWhile is_blank cs")
      case Nil
      with True have "collapse_blanks (c # cs) = [32]" by (simp del: dropWhile_eq_Nil_conv)
      then show ?thesis by simp
    next
      case (Cons d ds)
      then have "\<not> is_blank d" using hd_dropWhile [of is_blank cs] by auto
      with True Cons 2 show ?thesis by (simp add: is_blank_def)
    qed
  next
    case False
    with 2 show ?thesis by (simp add: is_blank_def single_spaced_Cons)
  qed
qed

lemma collapse_blanks_id:
  "single_spaced u \<Longrightarrow> 9 \<notin> set u \<Longrightarrow> collapse_blanks u = u"
proof (induction u rule: collapse_blanks.induct)
  case 1
  show ?case by simp
next
  case (2 c cs)
  have t: "single_spaced cs" using 2(3) by (rule single_spaced_tl)
  show ?case
  proof (cases "is_blank c")
    case True
    with 2(4) have c: "c = 32" by (auto simp: is_blank_def)
    have d: "dropWhile is_blank cs = cs"
    proof (cases cs)
      case Nil
      then show ?thesis by simp
    next
      case (Cons d ds)
      with 2(3,4) c have "\<not> is_blank d" by (auto simp: is_blank_def)
      with Cons show ?thesis by simp
    qed
    with 2 True t c show ?thesis by simp
  next
    case False
    with 2 t show ?thesis by simp
  qed
qed

subsection \<open>The lines that are kept\<close>

lemma nonblank_lines_Nil [simp]: "nonblank_lines [] = []"
  by (simp add: nonblank_lines_def)

lemma nonblank_lines_append:
  "nonblank_lines (a @ 10 # r) = nonblank_lines a @ nonblank_lines r"
  by (simp add: nonblank_lines_def split_nl_append)

lemma nonblank_lines_space: "\<forall>c\<in>set w. is_space c \<Longrightarrow> nonblank_lines w = []"
proof -
  assume a: "\<forall>c\<in>set w. is_space c"
  have "strip l = []" if "l \<in> set (split_nl w)" for l
    using that a split_nl_line_set [of l w] by (intro strip_all_space) auto
  then show ?thesis by (simp add: nonblank_lines_def filter_empty_conv)
qed

lemma nonblank_lines_props:
  "l \<in> set (nonblank_lines u) \<Longrightarrow>
   l \<noteq> [] \<and> strip l = l \<and> 10 \<notin> set l \<and> set l \<subseteq> set u \<and> (single_spaced u \<longrightarrow> single_spaced l)"
proof -
  assume "l \<in> set (nonblank_lines u)"
  then obtain m where m: "m \<in> set (split_nl u)" "strip m \<noteq> []" "l = strip m"
    by (auto simp: nonblank_lines_def)
  have s: "set m \<subseteq> set u" using m(1) by (rule split_nl_line_set)
  have n: "10 \<notin> set m" using m(1) by (rule split_nl_line_no_nl)
  have "single_spaced m" if "single_spaced u"
    using that m(1) single_spaced_join [of "split_nl u"] by (simp add: join_split_nl)
  then show ?thesis
    using m s n set_strip [of m] single_spaced_strip [of m] by (auto simp: strip_strip)
qed

lemma newline_run_decomp:
  assumes "10 \<in> set (takeWhile is_space cs)"
  shows "\<exists>w. cs = w @ 10 # drop (newline_run cs) cs \<and> (\<forall>c\<in>set w. is_space c)"
proof -
  define ws where "ws = takeWhile is_space cs"
  define tw where "tw = takeWhile (\<lambda>c. c \<noteq> 10) (rev ws)"
  define dw where "dw = dropWhile (\<lambda>c. c \<noteq> 10) (rev ws)"
  have "10 \<in> set (rev ws)" using assms by (simp add: ws_def)
  then have "dw \<noteq> []" by (auto simp: dw_def dropWhile_eq_Nil_conv)
  moreover have "\<not> (hd dw \<noteq> 10)" if "dw \<noteq> []"
    using that hd_dropWhile [of "\<lambda>c. c \<noteq> 10" "rev ws"] by (simp add: dw_def)
  ultimately obtain rest where rest: "dw = 10 # rest" by (cases dw) auto
  have "rev ws = tw @ dw" by (simp add: tw_def dw_def)
  then have ws: "ws = rev rest @ 10 # rev tw" using rest
    by (metis rev_append rev_rev_ident rev.simps(2) append_assoc append_Cons append_Nil)
  have cs: "cs = ws @ dropWhile is_space cs" by (simp add: ws_def)
  have nr: "newline_run cs = length ws - length tw"
    by (simp add: newline_run_def Let_def ws_def tw_def)
  have "length ws = Suc (length rest) + length tw" by (subst ws) simp
  then have k: "newline_run cs = Suc (length rest)" by (simp add: nr)
  have "drop (newline_run cs) cs = rev tw @ dropWhile is_space cs"
    by (subst cs) (simp add: k ws)
  then have "cs = rev rest @ 10 # drop (newline_run cs) cs" using cs ws by simp
  moreover have "\<forall>c\<in>set (rev rest). is_space c"
  proof
    fix c assume "c \<in> set (rev rest)"
    then have "c \<in> set ws" using ws by simp
    then show "is_space c" unfolding ws_def by (rule set_takeWhileD [THEN conjunct2])
  qed
  ultimately show ?thesis by blast
qed

lemma nonblank_lines_collapse_newlines_prefix:
  "nonblank_lines (p @ collapse_newlines u) = nonblank_lines (p @ u)"
proof (induction u arbitrary: p rule: collapse_newlines.induct)
  case 1
  show ?case by simp
next
  case (2 c cs)
  show ?case
  proof (cases "c = 10 \<and> 10 \<in> set (takeWhile is_space cs)")
    case True
    then obtain w where w: "cs = w @ 10 # drop (newline_run cs) cs" "\<forall>c\<in>set w. is_space c"
      using newline_run_decomp by blast
    have ih: "nonblank_lines (collapse_newlines (drop (newline_run cs) cs))
              = nonblank_lines (drop (newline_run cs) cs)"
      using 2(1) [OF True, of "[]"] by simp
    have "nonblank_lines (p @ collapse_newlines (c # cs))
          = nonblank_lines (p @ 10 # [] @ 10 # collapse_newlines (drop (newline_run cs) cs))"
      using True by simp
    also have "\<dots> = nonblank_lines p @ nonblank_lines (drop (newline_run cs) cs)"
      unfolding nonblank_lines_append by (simp add: ih)
    also have "nonblank_lines (drop (newline_run cs) cs) = nonblank_lines cs"
      by (subst (2) w(1)) (simp add: nonblank_lines_append nonblank_lines_space w(2))
    finally show ?thesis using True by (simp add: nonblank_lines_append)
  next
    case False
    then have "nonblank_lines (p @ collapse_newlines (c # cs))
          = nonblank_lines ((p @ [c]) @ collapse_newlines cs)" by auto
    also have "\<dots> = nonblank_lines ((p @ [c]) @ cs)" using 2(2) [OF False] by blast
    finally show ?thesis by simp
  qed
qed

lemma nonblank_lines_collapse_newlines:
  "nonblank_lines (collapse_newlines u) = nonblank_lines u"
  using nonblank_lines_collapse_newlines_prefix [of "[]" u] by simp

lemma strip_join_nonblank: "strip (join_nl (nonblank_lines u)) = join_nl (nonblank_lines u)"
proof (cases "nonblank_lines u = []")
  case True
  then show ?thesis by simp
next
  case False
  define ls where "ls = nonblank_lines u"
  have h: "hd ls \<in> set ls" and l: "last ls \<in> set ls" using False by (simp_all add: ls_def)
  have ph: "hd ls \<noteq> [] \<and> strip (hd ls) = hd ls"
    using nonblank_lines_props [of "hd ls" u] h by (simp add: ls_def)
  have pl: "last ls \<noteq> [] \<and> strip (last ls) = last ls"
    using nonblank_lines_props [of "last ls" u] l by (simp add: ls_def)
  have "\<not> is_space (hd (hd ls))" using ph strip_hd [of "hd ls"] by simp
  moreover have "\<not> is_space (last (last ls))" using pl strip_last [of "last ls"] by simp
  ultimately have "strip (join_nl ls) = join_nl ls"
    using False ph pl by (intro strip_id) (simp_all add: ls_def hd_join_nl last_join_nl join_nl_eq_Nil)
  then show ?thesis by (simp add: ls_def)
qed

lemma clean_text_eq:
  "clean_text text = join_nl (nonblank_lines (collapse_blanks (sub_unprintable text)))"
  by (simp add: clean_text_lines nonblank_lines_collapse_newlines strip_join_nonblank)

lemma nonblank_lines_join:
  assumes "\<forall>l\<in>set ls. l \<noteq> [] \<and> strip l = l \<and> 10 \<notin> set l"
  shows "nonblank_lines (join_nl ls) = ls"
proof (cases "ls = []")
  case True
  then show ?thesis by simp
next
  case False
  then have "split_nl (join_nl ls) = ls" using assms by (intro split_join_nl) auto
  moreover have "filter (\<lambda>line. strip line \<noteq> []) ls = ls" using assms by (simp add: filter_id_conv)
  moreover have "map strip ls = ls" using assms by (simp add: map_idI)
  ultimately show ?thesis by (simp add: nonblank_lines_def)
qed

lemma sub_unprintable_id: "\<forall>c\<in>set u. is_kept c \<Longrightarrow> sub_unprintable u = u"
  by (simp add: sub_unprintable_def map_idI)

lemma sub_unprintable_kept: "c \<in> set (sub_unprintable u) \<Longrightarrow> is_kept c"
  by (auto simp: sub_unprintable_def is_kept_def)

lemma clean_text_fixed: "clean_text (clean_text x) = clean_text x"
proof -
  define u where "u = collapse_blanks (sub_unprintable x)"
  define ls where "ls = nonblank_lines u"
  have y: "clean_text x = join_nl ls" by (simp add: clean_text_eq u_def ls_def)
  have props: "l \<noteq> [] \<and> strip l = l \<and> 10 \<notin> set l \<and> set l \<subseteq> set u \<and> single_spaced l"
    if "l \<in> set ls" for l
    using that nonblank_lines_props [of l u] collapse_blanks_single_spaced [of "sub_unprintable x"]
    by (simp add: ls_def u_def)
  have ku: "is_kept c" if "c \<in> set u" for c
    using that collapse_blanks_set [of "sub_unprintable x"] sub_unprintable_kept [of c x]
    by (auto simp: u_def is_kept_def)
  have kept: "\<forall>c\<in>set (join_nl ls). is_kept c"
  proof
    fix c assume "c \<in> set (join_nl ls)"
    then have "c \<in> (\<Union>l\<in>set ls. set l) \<union> {10}" using set_join_nl_sub by blast
    then show "is_kept c" using props ku by (auto simp: is_kept_def)
  qed
  have notab: "9 \<notin> set (join_nl ls)"
  proof
    assume "9 \<in> set (join_nl ls)"
    then have "9 \<in> (\<Union>l\<in>set ls. set l) \<union> {10}" using set_join_nl_sub by blast
    then have "9 \<in> set u" using props by auto
    then show False using collapse_blanks_no_tab by (simp add: u_def)
  qed
  have ss: "single_spaced (join_nl ls)" using props by (simp add: single_spaced_join)
  have "clean_text (join_nl ls) = join_nl (nonblank_lines (join_nl ls))"
    by (simp add: clean_text_eq sub_unprintable_id kept collapse_blanks_id ss notab)
  also have "nonblank_lines (join_nl ls) = ls" using props by (intro nonblank_lines_join) auto
  finally show ?thesis by (simp add: y)
qed

text \<open>
  C2. On \<^verbatim>\<open>"Hola\x00\x01mundo"\<close> the cleaner returns \<^verbatim>\<open>"Hola mundo"\<close>: the two control
  characters are replaced by spaces, which then collapse to one space, so the result is
  not \<^verbatim>\<open>"Holamundo"\<close>.
\<close>

theorem clean_text_control_characters:
  "clean_text (cp ''Hola'' @ [0, 1] @ cp ''mundo'') = cp ''Hola mundo''
   \<and> clean_text (cp ''Hola'' @ [0, 1] @ cp ''mundo'') \<noteq> cp ''Holamundo''"
  by (simp add: clean_text_def cp_def sub_unprintable_def is_kept_def is_blank_def
      is_space_def strip_def)

text \<open>
  The cleaner keeps no blank line at all: its result is the stripped non-blank lines of
  the text (after the control characters and the runs of spaces and tabs are dealt
  with), joined by single line feeds; every line of a non-empty result is non-empty and
  has no whitespace at either end.
\<close>

lemma clean_text_no_blank_line:
  "clean_text text = join_nl (nonblank_lines (collapse_blanks (sub_unprintable text)))
   \<and> (clean_text text \<noteq> [] \<longrightarrow>
        (\<forall>line\<in>set (split_nl (clean_text text)). line \<noteq> [] \<and> strip line = line))"
proof (intro conjI impI ballI)
  show e: "clean_text text = join_nl (nonblank_lines (collapse_blanks (sub_unprintable text)))"
    by (rule clean_text_eq)
  fix line
  assume ne: "clean_text text \<noteq> []" and l: "line \<in> set (split_nl (clean_text text))"
  define ls where "ls = nonblank_lines (collapse_blanks (sub_unprintable text))"
  have p: "\<forall>l\<in>set ls. l \<noteq> [] \<and> strip l = l \<and> 10 \<notin> set l"
    using nonblank_lines_props by (auto simp: ls_def)
  have "ls \<noteq> []" using ne e by (auto simp: ls_def)
  then have "split_nl (join_nl ls) = ls" using p by (intro split_join_nl) auto
  then have "line \<in> set ls" using l e by (simp add: ls_def)
  then show "line \<noteq> []" and "strip line = line" using p by auto
qed

text \<open>
  C7. Three line feeds between two lines: the expression for line feeds leaves one
  blank line between them, and so does the whole of the standalone copy of the cleaner,
  but \<open>clean_text\<close> returns the two lines with one line feed and no blank line, because
  the list comprehension that trims the lines also drops the empty ones.
\<close>

theorem clean_text_drops_blank_line:
  "clean_text (cp ''a'' @ [10, 10, 10] @ cp ''b'') = cp ''a'' @ [10] @ cp ''b''
   \<and> clean_text (cp ''a'' @ [10, 10, 10] @ cp ''b'') \<noteq> cp ''a'' @ [10, 10] @ cp ''b''
   \<and> collapse_newlines (collapse_blanks (sub_unprintable (cp ''a'' @ [10, 10, 10] @ cp ''b'')))
       = cp ''a'' @ [10, 10] @ cp ''b''
   \<and> clean_text_standalone (cp ''a'' @ [10, 10, 10] @ cp ''b'') = cp ''a'' @ [10, 10] @ cp ''b''"
  by (simp add: clean_text_def clean_text_standalone_def cp_def sub_unprintable_def is_kept_def
      is_blank_def is_space_def strip_def newline_run_def)

text \<open>C9. The cleaner is idempotent: cleaning a cleaned text changes nothing.\<close>

theorem clean_text_idempotent: "clean_text (clean_text x) = clean_text x"
  by (rule clean_text_fixed)

theorem clean_text_idempotent_witness:
  "clean_text (clean_text (cp ''a    b '' @ [9, 10, 13, 10] @ cp '' c''))
     = cp ''a b'' @ [10] @ cp ''c''"
proof -
  have c: "clean_text (cp ''a    b '' @ [9, 10, 13, 10] @ cp '' c'') = cp ''a b'' @ [10] @ cp ''c''"
    by (simp add: clean_text_def cp_def sub_unprintable_def is_kept_def is_blank_def
        is_space_def strip_def newline_run_def)
  show ?thesis
    using clean_text_idempotent [of "cp ''a    b '' @ [9, 10, 13, 10] @ cp '' c''"]
    by (simp only: c)
qed

section \<open>Date validation\<close>

lemma hyphen_not_digit [simp]: "\<not> is_digit nd 45"
  by (simp add: is_digit_def digit_value_def)

lemma hyphen_at_Cons [simp]: "hyphen_at (c # cs) = (c = 45)"
  by (simp add: hyphen_at_def)



subsection \<open>What a match is\<close>




subsection \<open>Every occurrence of the shape is matched\<close>






subsection \<open>The search takes the leftmost match\<close>




subsection \<open>The validated date\<close>







section \<open>Semantic search\<close>

text \<open>
  What the dictionary of distances holds when the rows come in ascending order of
  distance, as the SQL statement returns them: for each document the last of its rows,
  which is the greatest of its retrieved distances.
\<close>

lemma similitud_map_snoc:
  "similitud_map (rows @ [row]) = (similitud_map rows)(fst row \<mapsto> snd row)"
  by (simp add: similitud_map_def)

lemma similitud_map_greatest:
  "sorted (map snd rows) \<Longrightarrow> similitud_map rows k = Some s \<Longrightarrow>
   (k, s) \<in> set rows \<and> (\<forall>s'. (k, s') \<in> set rows \<longrightarrow> s' \<le> s)"
proof (induction rows arbitrary: s rule: rev_induct)
  case Nil
  then show ?case by (simp add: similitud_map_def)
next
  case (snoc row rows)
  have srt: "sorted (map snd rows)" and le: "\<forall>x\<in>set rows. snd x \<le> snd row"
    using snoc(2) by (auto simp: sorted_append)
  show ?case
  proof (cases "fst row = k")
    case True
    with snoc(3) have s: "s = snd row" by (simp add: similitud_map_snoc)
    have "(k, s) \<in> set (rows @ [row])" using True s by (cases row) auto
    moreover have "s' \<le> s" if "(k, s') \<in> set (rows @ [row])" for s'
      using that le s True by (cases row) force
    ultimately show ?thesis by blast
  next
    case False
    with snoc(3) have "similitud_map rows k = Some s" by (simp add: similitud_map_snoc)
    from snoc(1) [OF srt this] have "(k, s) \<in> set rows" and "\<forall>s'. (k, s') \<in> set rows \<longrightarrow> s' \<le> s"
      by auto
    then show ?thesis using False by auto
  qed
qed

lemmas search_eval =
  search_documentos_def rank_documents_def vector_search_def similitud_map_def get_similitud_def
  SIMILARITY_THRESHOLD_def apply_filters_def empty_response_def completed_doc_def frag_def
  first_page_def

text \<open>
  C1. Two fragments of one document at distances 0.2 and 0.9 are both among the rows
  retrieved; the score reported for the document is 0.9, the greatest, while its least
  distance is 0.2.
\<close>

theorem search_documentos_reports_greatest_distance:
  "search_documentos [frag 1 0.2, frag 1 0.9] [completed_doc 1] first_page
     = Inr \<lparr>results = [\<lparr>documento = completed_doc 1, relevance_score = 0.9\<rparr>],
            total = 1, response_page = 1, total_pages = 1\<rparr>
   \<and> min_distance [frag 1 0.2, frag 1 0.9] 1 = Some 0.2"
  by (simp add: search_eval min_distance_def)

text \<open>
  C4. A document with fragments at distances 0.2 and 1.5 is discarded although its
  least distance is within the threshold; documents 1 (fragments at 0.1 and 0.9) and 2
  (one fragment at 0.5) come back with 2 first; with one fragment per document, at
  0.2, 0.9 and 1.5, the first two documents come back in that order.
\<close>

theorem search_documentos_threshold_and_order:
  "search_documentos [frag 1 0.2, frag 1 1.5] [completed_doc 1] first_page
     = Inr \<lparr>results = [], total = 0, response_page = 1, total_pages = 0\<rparr>
   \<and> min_distance [frag 1 0.2, frag 1 1.5] 1 = Some 0.2
   \<and> search_documentos [frag 1 0.1, frag 1 0.9, frag 2 0.5] [completed_doc 1, completed_doc 2]
       first_page
     = Inr \<lparr>results = [\<lparr>documento = completed_doc 2, relevance_score = 0.5\<rparr>,
                       \<lparr>documento = completed_doc 1, relevance_score = 0.9\<rparr>],
            total = 2, response_page = 1, total_pages = 1\<rparr>
   \<and> search_documentos [frag 1 0.2, frag 2 0.9, frag 3 1.5]
       [completed_doc 1, completed_doc 2, completed_doc 3] first_page
     = Inr \<lparr>results = [\<lparr>documento = completed_doc 1, relevance_score = 0.2\<rparr>,
                       \<lparr>documento = completed_doc 2, relevance_score = 0.9\<rparr>],
            total = 2, response_page = 1, total_pages = 1\<rparr>"
  by (simp add: search_eval min_distance_def)

section \<open>Retries of the ingestion job\<close>

text \<open>
  C5. A job that fails every time is run four times; the countdowns of its three
  retries are 60, 300 and 1500 seconds, the third being 60 * 5^2 and not 900. At each
  failure a document row that exists is set to \<open>error\<close> with the message; the failure
  with \<open>retries = 3\<close> is the last.
\<close>

theorem failing_job_delays:
  "failing_job 0 = [60, 300, 1500]
   \<and> retry_delay 2 = 1500
   \<and> on_failure 3 ''ValueError: x'' (Some \<lparr>row_status = Processing, error_message = None\<rparr>)
       = (Some \<lparr>row_status = Failed, error_message = Some ''ValueError: x''\<rparr>, Give_Up)"
  by (simp add: task_retry_def retry_delay_def max_retries_def on_failure_def)

end
